theory Spec2Isabelle
  imports Main "HOL-Library.Word" "HOL-Library.AList" "HOL-Library.Multiset"
begin

section \<open>flagpp: the feature-flag registry of \<^verbatim>\<open>include/flagpp.hpp\<close>\<close>

text \<open>
  The header defines three classes (\<^verbatim>\<open>Value\<close>, \<^verbatim>\<open>Flag\<close>, \<^verbatim>\<open>FlagRegistry\<close>) and the
  free functions of namespace \<^verbatim>\<open>flagpp::flags\<close>, which forward to the one
  \<^verbatim>\<open>FlagRegistry::instance()\<close>. The embedding is sequential: every method body runs
  under its \<^verbatim>\<open>shared_mutex\<close> from the first statement to the last, so a method is one
  atomic step on the state and the locks themselves are not modelled.
\<close>

subsection \<open>\<^verbatim>\<open>FlagValue\<close>\<close>

text \<open>
  \<^verbatim>\<open>using FlagValue = std::variant<bool, int, double, std::string>;\<close>

  \<^verbatim>\<open>int\<close> is the 32-bit two's complement integer of the ILP32, LP64 and LLP64 data
  models (read it with \<open>sint\<close>). A \<^verbatim>\<open>double\<close> is only ever copied by this library,
  never computed with, so it is carried as its 64-bit IEEE 754 representation.
\<close>

type_synonym cpp_int = "32 word"
type_synonym cpp_double = "64 word"

datatype FlagValue =
    VBool bool
  | VInt cpp_int
  | VDouble cpp_double
  | VString string

text \<open>\<^verbatim>\<open>std::holds_alternative<T>(v)\<close>, one instance for each alternative.\<close>

fun holds_alternative_bool :: "FlagValue \<Rightarrow> bool" where
  "holds_alternative_bool (VBool _) = True"
| "holds_alternative_bool _ = False"

fun holds_alternative_int :: "FlagValue \<Rightarrow> bool" where
  "holds_alternative_int (VInt _) = True"
| "holds_alternative_int _ = False"

fun holds_alternative_double :: "FlagValue \<Rightarrow> bool" where
  "holds_alternative_double (VDouble _) = True"
| "holds_alternative_double _ = False"

fun holds_alternative_string :: "FlagValue \<Rightarrow> bool" where
  "holds_alternative_string (VString _) = True"
| "holds_alternative_string _ = False"

text \<open>
  The conversion of a 64-bit integer to \<^verbatim>\<open>int\<close> (\<^verbatim>\<open>static_cast<int>\<close>), which keeps
  the low 32 bits. The variant has no wider integer alternative, and a 64-bit argument
  does not select one by itself, so this conversion is the only way such a value
  reaches a flag as an integer.
\<close>

definition static_cast_int :: "64 word \<Rightarrow> cpp_int" where
  "static_cast_int v = ucast v"

subsection \<open>\<^verbatim>\<open>class Value\<close>\<close>

datatype Value = Value FlagValue

text \<open>
  \<^verbatim>\<open>template <typename T> std::optional<T> get() const\<close>: the stored alternative when
  it is \<^verbatim>\<open>T\<close>, \<^verbatim>\<open>std::nullopt\<close> otherwise. One instance for each alternative.
\<close>

fun Value_get_bool :: "Value \<Rightarrow> bool option" where
  "Value_get_bool (Value v) =
     (if holds_alternative_bool v then (case v of VBool b \<Rightarrow> Some b | _ \<Rightarrow> None) else None)"

fun Value_get_int :: "Value \<Rightarrow> cpp_int option" where
  "Value_get_int (Value v) =
     (if holds_alternative_int v then (case v of VInt i \<Rightarrow> Some i | _ \<Rightarrow> None) else None)"

fun Value_get_double :: "Value \<Rightarrow> cpp_double option" where
  "Value_get_double (Value v) =
     (if holds_alternative_double v then (case v of VDouble x \<Rightarrow> Some x | _ \<Rightarrow> None) else None)"

fun Value_get_string :: "Value \<Rightarrow> string option" where
  "Value_get_string (Value v) =
     (if holds_alternative_string v then (case v of VString t \<Rightarrow> Some t | _ \<Rightarrow> None) else None)"

text \<open>\<^verbatim>\<open>explicit operator bool() const\<close>: the boolean, or false if not a boolean.\<close>

definition Value_operator_bool :: "Value \<Rightarrow> bool" where
  "Value_operator_bool val = (case Value_get_bool val of Some b \<Rightarrow> b | None \<Rightarrow> False)"

subsection \<open>\<^verbatim>\<open>class Flag\<close>\<close>

text \<open>
  A member \<^verbatim>\<open>name_\<close> of the source is the field \<open>m_name\<close> here, and so for the
  other members: a name cannot end in an underscore.
\<close>

record Flag =
  m_name :: string
  m_value :: FlagValue
  m_description :: string

definition Flag_value :: "Flag \<Rightarrow> Value" where
  "Flag_value f = Value (m_value f)"

definition Flag_update :: "FlagValue \<Rightarrow> Flag \<Rightarrow> Flag" where
  "Flag_update new_value f = f\<lparr>m_value := new_value\<rparr>"

subsection \<open>\<^verbatim>\<open>class FlagRegistry\<close> and the objects it shares\<close>

text \<open>
  A \<^verbatim>\<open>std::shared_ptr<Flag>\<close> is an address into the store of \<^verbatim>\<open>Flag\<close> objects;
  \<^verbatim>\<open>nullptr\<close> is \<open>None\<close>. \<^verbatim>\<open>std::make_shared<Flag>\<close> puts a new object at the next
  address. No object is ever released: the registry keeps its pointer for as long as the
  process runs.

  \<^verbatim>\<open>flags_\<close> is a \<^verbatim>\<open>std::unordered_map<std::string, std::shared_ptr<Flag>>\<close>. It is
  kept as an association list, whose order stands for the iteration order of the hash
  table; \<^verbatim>\<open>find\<close> is \<open>map_of\<close> and \<^verbatim>\<open>flags_[name] = flag\<close> is \<open>AList.update\<close>
  (assign in place when the key is there, insert otherwise). The order is not
  observable through \<^verbatim>\<open>find\<close>, the keys being distinct, and \<^verbatim>\<open>get_all\<close> returns the same
  pointers in whatever order it iterates (lemma \<open>get_all_loop_mset\<close>).
\<close>

type_synonym flag_ptr = nat

record state =
  heap :: "Flag list"
  m_flags :: "(string \<times> flag_ptr) list"

definition init :: state where
  "init = \<lparr>heap = [], m_flags = []\<rparr>"

text \<open>
  \<^verbatim>\<open>define\<close> is a template over the type \<^verbatim>\<open>T\<close> of the default value and builds
  \<^verbatim>\<open>FlagValue(std::move(default_value))\<close>; here the argument is that \<^verbatim>\<open>FlagValue\<close>. The
  same holds for \<^verbatim>\<open>update\<close>. The default argument \<^verbatim>\<open>description = ""\<close> is written out
  by the caller as \<open>[]\<close>.
\<close>

definition FlagRegistry_define :: "string \<Rightarrow> FlagValue \<Rightarrow> string \<Rightarrow> state \<Rightarrow> flag_ptr \<times> state" where
  "FlagRegistry_define name default_value description s =
     (case map_of (m_flags s) name of
        Some it \<Rightarrow> (it, s)
      | None \<Rightarrow>
          (let flag = length (heap s);
               s1 = s\<lparr>heap := heap s @ [\<lparr>m_name = name, m_value = default_value, m_description = description\<rparr>]\<rparr>
           in (flag, s1\<lparr>m_flags := AList.update name flag (m_flags s1)\<rparr>)))"

definition FlagRegistry_get :: "string \<Rightarrow> state \<Rightarrow> flag_ptr option" where
  "FlagRegistry_get name s =
     (case map_of (m_flags s) name of Some it \<Rightarrow> Some it | None \<Rightarrow> None)"

definition FlagRegistry_exists :: "string \<Rightarrow> state \<Rightarrow> bool" where
  "FlagRegistry_exists name s = (map_of (m_flags s) name \<noteq> None)"

text \<open>
  \<^verbatim>\<open>flag->update(std::move(value))\<close> writes through the pointer: the object at that
  address changes, for every holder of the pointer.
\<close>

definition FlagRegistry_update :: "string \<Rightarrow> FlagValue \<Rightarrow> state \<Rightarrow> bool \<times> state" where
  "FlagRegistry_update name v s =
     (case FlagRegistry_get name s of
        None \<Rightarrow> (False, s)
      | Some flag \<Rightarrow> (True, s\<lparr>heap := (heap s)[flag := Flag_update v (heap s ! flag)]\<rparr>))"

text \<open>The loop of \<^verbatim>\<open>get_all\<close>: \<^verbatim>\<open>result.push_back(flag)\<close> for each entry in turn.\<close>

fun get_all_loop :: "(string \<times> flag_ptr) list \<Rightarrow> flag_ptr list \<Rightarrow> flag_ptr list" where
  "get_all_loop [] result = result"
| "get_all_loop ((_, flag) # rest) result = get_all_loop rest (result @ [flag])"

definition FlagRegistry_get_all :: "state \<Rightarrow> flag_ptr list" where
  "FlagRegistry_get_all s = get_all_loop (m_flags s) []"

subsection \<open>namespace \<^verbatim>\<open>flags\<close>\<close>

definition flags_define :: "string \<Rightarrow> FlagValue \<Rightarrow> string \<Rightarrow> state \<Rightarrow> flag_ptr \<times> state" where
  "flags_define name default_value description s =
     FlagRegistry_define name default_value description s"

definition flags_get :: "string \<Rightarrow> state \<Rightarrow> flag_ptr option" where
  "flags_get name s = FlagRegistry_get name s"

definition flags_exists :: "string \<Rightarrow> state \<Rightarrow> bool" where
  "flags_exists name s = FlagRegistry_exists name s"

definition flags_is_enabled :: "string \<Rightarrow> state \<Rightarrow> bool" where
  "flags_is_enabled name s =
     (case flags_get name s of
        Some flag \<Rightarrow> Value_operator_bool (Flag_value (heap s ! flag))
      | None \<Rightarrow> False)"

definition flags_get_value_bool :: "string \<Rightarrow> state \<Rightarrow> bool option" where
  "flags_get_value_bool name s =
     (case flags_get name s of
        None \<Rightarrow> None
      | Some flag \<Rightarrow> Value_get_bool (Flag_value (heap s ! flag)))"

definition flags_get_value_int :: "string \<Rightarrow> state \<Rightarrow> cpp_int option" where
  "flags_get_value_int name s =
     (case flags_get name s of
        None \<Rightarrow> None
      | Some flag \<Rightarrow> Value_get_int (Flag_value (heap s ! flag)))"

definition flags_get_value_double :: "string \<Rightarrow> state \<Rightarrow> cpp_double option" where
  "flags_get_value_double name s =
     (case flags_get name s of
        None \<Rightarrow> None
      | Some flag \<Rightarrow> Value_get_double (Flag_value (heap s ! flag)))"

definition flags_get_value_string :: "string \<Rightarrow> state \<Rightarrow> string option" where
  "flags_get_value_string name s =
     (case flags_get name s of
        None \<Rightarrow> None
      | Some flag \<Rightarrow> Value_get_string (Flag_value (heap s ! flag)))"

definition flags_update :: "string \<Rightarrow> FlagValue \<Rightarrow> state \<Rightarrow> bool \<times> state" where
  "flags_update name v s = FlagRegistry_update name v s"

definition flags_get_all :: "state \<Rightarrow> flag_ptr list" where
  "flags_get_all s = FlagRegistry_get_all s"

subsection \<open>Histories of calls\<close>

text \<open>
  The calls that change the state: \<^verbatim>\<open>define\<close>, \<^verbatim>\<open>update\<close>, and \<^verbatim>\<open>Flag::update\<close>
  through a pointer that a caller holds. A caller holds only pointers that the registry
  returned, all of them below the size of the store; \<open>list_update\<close> leaves the store
  as it is at any other address. A reachable state is \<open>exec ops init\<close> for a history
  \<open>ops\<close>.
\<close>

datatype Op =
    Define string FlagValue string
  | Update string FlagValue
  | HandleUpdate flag_ptr FlagValue

fun step :: "Op \<Rightarrow> state \<Rightarrow> state" where
  "step (Define name default_value description) s = snd (flags_define name default_value description s)"
| "step (Update name v) s = snd (flags_update name v s)"
| "step (HandleUpdate flag v) s = s\<lparr>heap := (heap s)[flag := Flag_update v (heap s ! flag)]\<rparr>"

fun exec :: "Op list \<Rightarrow> state \<Rightarrow> state" where
  "exec [] s = s"
| "exec (op # ops) s = exec ops (step op s)"

text \<open>
  The arguments of the first \<^verbatim>\<open>define\<close> of a name in a history (a notion of the
  specification, not a function of the library).
\<close>

fun first_define :: "string \<Rightarrow> Op list \<Rightarrow> (FlagValue \<times> string) option" where
  "first_define n [] = None"
| "first_define n (Define name v d # ops) = (if name = n then Some (v, d) else first_define n ops)"
| "first_define n (_ # ops) = first_define n ops"


subsection \<open>The invariant of the registry\<close>

text \<open>
  What every history keeps: the names in \<open>m_flags\<close> are distinct (the keys of a map),
  and each name points into the store, at the \<^verbatim>\<open>Flag\<close> that was constructed under that
  name. It is used in the proofs only; the theorems below speak about reachable states.
\<close>

definition registry_inv :: "state \<Rightarrow> bool" where
  "registry_inv s \<longleftrightarrow>
     distinct (map fst (m_flags s)) \<and>
     (\<forall>n a. map_of (m_flags s) n = Some a \<longrightarrow> a < length (heap s) \<and> m_name (heap s ! a) = n)"

subsection \<open>The history of \<^verbatim>\<open>examples/basic_usage.cpp\<close>\<close>

text \<open>
  The four definitions the example program starts with, and the state they leave.
  \<^verbatim>\<open>30.5\<close> is \<open>0x403E800000000000\<close> as an IEEE 754 double.
\<close>

definition basic_usage :: "Op list" where
  "basic_usage =
     [Define ''dark_mode'' (VBool True) ''Enable dark mode UI'',
      Define ''max_connections'' (VInt 100) ''Maximum number of connections'',
      Define ''api_endpoint'' (VString ''https://api.example.com'') ''API endpoint URL'',
      Define ''timeout_seconds'' (VDouble 0x403E800000000000) ''Connection timeout in seconds'']"

section \<open>Lemmas on the registry\<close>

lemmas flags_defs = flags_define_def flags_get_def flags_exists_def flags_update_def
  flags_get_all_def FlagRegistry_define_def FlagRegistry_get_def FlagRegistry_exists_def
  FlagRegistry_update_def FlagRegistry_get_all_def

lemma get_all_loop_eq: "get_all_loop xs acc = acc @ map snd xs"
  by (induction xs arbitrary: acc) auto

lemma get_all_loop_mset:
  "mset al' = mset al \<Longrightarrow> mset (get_all_loop al' []) = mset (get_all_loop al [])"
  by (simp add: get_all_loop_eq)

lemma flags_get_map_of: "flags_get n s = map_of (m_flags s) n"
  by (simp add: flags_defs split: option.splits)

lemma flags_exists_get: "flags_exists n s \<longleftrightarrow> flags_get n s \<noteq> None"
  by (simp add: flags_defs split: option.splits)

lemma registry_inv_init: "registry_inv init"
  by (simp add: registry_inv_def init_def)

lemma registry_inv_get:
  "registry_inv s \<Longrightarrow> flags_get n s = Some h \<Longrightarrow> h < length (heap s) \<and> m_name (heap s ! h) = n"
  by (simp add: registry_inv_def flags_get_map_of)

lemma alist_update_fresh: "map_of al k = None \<Longrightarrow> AList.update k v al = al @ [(k, v)]"
  by (induction al) (auto split: if_splits)

lemma registry_inv_define: 
  assumes "registry_inv s"
  shows "registry_inv (snd (flags_define n v d s))"
proof (cases "map_of (m_flags s) n")
  case None
  then show ?thesis using assms
    unfolding registry_inv_def
    by (fastforce simp: flags_defs Let_def distinct_update update_conv' nth_append
        simp del: map_of_eq_Some_iff split: if_splits)
next
  case (Some a)
  then show ?thesis using assms by (simp add: flags_defs)
qed

lemma nth_update_read: "h < length hp \<Longrightarrow> hp[a := f] ! h = (if a = h then f else hp ! h)"
  by (cases "a = h") simp_all

lemma registry_inv_heap_update:
  assumes "registry_inv s"
  shows "registry_inv (s\<lparr>heap := (heap s)[a := Flag_update v (heap s ! a)]\<rparr>)"
proof -
  have "m_name ((heap s)[a := Flag_update v (heap s ! a)] ! h) = m_name (heap s ! h)"
    if "h < length (heap s)" for h
    using that by (simp add: nth_update_read Flag_update_def)
  with assms show ?thesis
    unfolding registry_inv_def by simp
qed

lemma registry_inv_update: "registry_inv s \<Longrightarrow> registry_inv (snd (flags_update n v s))"
  by (auto simp: flags_update_def FlagRegistry_update_def registry_inv_heap_update split: option.splits)

lemma registry_inv_step: "registry_inv s \<Longrightarrow> registry_inv (step op s)"
  by (cases op) (simp_all add: registry_inv_define registry_inv_update registry_inv_heap_update)

lemma registry_inv_exec: "registry_inv s \<Longrightarrow> registry_inv (exec ops s)"
  by (induction ops arbitrary: s) (simp_all add: registry_inv_step)

lemma registry_inv_reachable: "registry_inv (exec ops init)"
  by (simp add: registry_inv_exec registry_inv_init)

lemma flags_define_existing: "flags_get n s = Some h \<Longrightarrow> flags_define n v d s = (h, s)"
  by (simp add: flags_defs split: option.splits)

lemma flags_define_fresh:
  "flags_get n s = None \<Longrightarrow>
   flags_define n v d s =
     (length (heap s),
      s\<lparr>heap := heap s @ [\<lparr>m_name = n, m_value = v, m_description = d\<rparr>],
        m_flags := m_flags s @ [(n, length (heap s))]\<rparr>)"
  by (simp add: flags_defs Let_def alist_update_fresh split: option.splits)

lemma flags_update_missing: "flags_get n s = None \<Longrightarrow> flags_update n v s = (False, s)"
  by (simp add: flags_defs split: option.splits)

lemma flags_update_existing:
  "flags_get n s = Some h \<Longrightarrow>
   flags_update n v s = (True, s\<lparr>heap := (heap s)[h := Flag_update v (heap s ! h)]\<rparr>)"
  by (simp add: flags_defs split: option.splits)

lemma flags_get_heap_update [simp]: "flags_get n (s\<lparr>heap := hp\<rparr>) = flags_get n s"
  by (simp add: flags_get_map_of)

lemma flags_get_after_define: "flags_get n (snd (flags_define n v d s)) = Some (fst (flags_define n v d s))"
  by (cases "flags_get n s")
    (simp_all add: flags_define_fresh flags_define_existing flags_get_map_of map_add_def)

lemma flags_get_step: "flags_get n s = Some h \<Longrightarrow> flags_get n (step op s) = Some h"
proof (cases op)
  case (Define n' v d)
  assume g: "flags_get n s = Some h"
  show ?thesis
  proof (cases "flags_get n' s")
    case None
    with g have "n' \<noteq> n" by auto
    with g None Define show ?thesis by (simp add: flags_define_fresh flags_get_map_of)
  next
    case (Some a)
    with g Define show ?thesis by (simp add: flags_define_existing)
  qed
next
  case (Update n' v)
  assume "flags_get n s = Some h"
  with Update show ?thesis
    by (cases "flags_get n' s") (simp_all add: flags_update_missing flags_update_existing)
next
  case (HandleUpdate a v)
  assume "flags_get n s = Some h"
  with HandleUpdate show ?thesis by simp
qed

lemma flags_get_exec: "flags_get n s = Some h \<Longrightarrow> flags_get n (exec ops s) = Some h"
  by (induction ops arbitrary: s) (simp_all add: flags_get_step)

lemma heap_step:
  "length (heap s) \<le> length (heap (step op s)) \<and>
   (\<forall>h < length (heap s).
      m_name (heap (step op s) ! h) = m_name (heap s ! h) \<and>
      m_description (heap (step op s) ! h) = m_description (heap s ! h))"
proof (cases op)
  case (Define n' v d)
  then show ?thesis
    by (cases "flags_get n' s") (simp_all add: flags_define_fresh flags_define_existing nth_append)
next
  case (Update n' v)
  then show ?thesis
    by (cases "flags_get n' s")
      (simp_all add: flags_update_missing flags_update_existing nth_update_read Flag_update_def)
next
  case (HandleUpdate a v)
  then show ?thesis by (simp add: nth_update_read Flag_update_def)
qed

lemma heap_exec:
  "h < length (heap s) \<Longrightarrow>
   h < length (heap (exec ops s)) \<and>
   m_name (heap (exec ops s) ! h) = m_name (heap s ! h) \<and>
   m_description (heap (exec ops s) ! h) = m_description (heap s ! h)"
proof (induction ops arbitrary: s)
  case Nil
  then show ?case by simp
next
  case (Cons op ops)
  from heap_step [of s op] Cons.prems have "h < length (heap (step op s))" and
    "m_name (heap (step op s) ! h) = m_name (heap s ! h)"
    "m_description (heap (step op s) ! h) = m_description (heap s ! h)"
    by auto
  with Cons.IH [of "step op s"] show ?case by simp
qed


lemma exec_append: "exec (ops @ ops') s = exec ops' (exec ops s)"
  by (induction ops arbitrary: s) simp_all

lemma reachable_get:
  "flags_get n (exec ops init) = Some h \<Longrightarrow>
   h < length (heap (exec ops init)) \<and> m_name (heap (exec ops init) ! h) = n"
  by (rule registry_inv_get [OF registry_inv_reachable])

lemma update_read:
  assumes "registry_inv s" and "flags_get n s = Some h"
  shows "fst (flags_update n w s) = True"
    and "flags_get n (snd (flags_update n w s)) = Some h"
    and "m_flags (snd (flags_update n w s)) = m_flags s"
    and "heap (snd (flags_update n w s)) ! h = Flag_update w (heap s ! h)"
proof -
  from assms have "h < length (heap s)"
    by (simp add: registry_inv_get)
  with assms(2) show "heap (snd (flags_update n w s)) ! h = Flag_update w (heap s ! h)"
    by (simp add: flags_update_existing)
  from assms(2) show "fst (flags_update n w s) = True"
    and "flags_get n (snd (flags_update n w s)) = Some h"
    and "m_flags (snd (flags_update n w s)) = m_flags s"
    by (simp_all add: flags_update_existing)
qed

lemma define_read:
  assumes "flags_get n s = None"
  shows "fst (flags_define n v d s) = length (heap s)"
    and "flags_get n (snd (flags_define n v d s)) = Some (length (heap s))"
    and "heap (snd (flags_define n v d s)) ! length (heap s) =
           \<lparr>m_name = n, m_value = v, m_description = d\<rparr>"
  using assms by (simp_all add: flags_define_fresh flags_get_map_of map_add_def)

lemma get_all_names:
  assumes "registry_inv s"
  shows "map (\<lambda>h. m_name (heap s ! h)) (flags_get_all s) = map fst (m_flags s)"
proof -
  have "m_name (heap s ! snd e) = fst e" if "e \<in> set (m_flags s)" for e
  proof -
    from assms have "distinct (map fst (m_flags s))"
      by (simp add: registry_inv_def)
    with that have "map_of (m_flags s) (fst e) = Some (snd e)"
      by simp
    with assms show ?thesis
      unfolding registry_inv_def by blast
  qed
  then show ?thesis
    by (simp add: flags_get_all_def FlagRegistry_get_all_def get_all_loop_eq)
qed

lemma exists_set: "{n. flags_exists n s} = set (map fst (m_flags s))"
  by (auto simp: flags_exists_def FlagRegistry_exists_def map_of_eq_None_iff)

lemma flags_get_step_other:
  assumes "\<And>v d. op \<noteq> Define n v d"
  shows "flags_get n (step op s) = flags_get n s"
proof (cases op)
  case (Define n' v d)
  with assms have "n' \<noteq> n" by auto
  with Define show ?thesis
    by (cases "flags_get n' s")
      (simp_all add: flags_define_fresh flags_define_existing flags_get_map_of map_add_def
        split: option.splits)
next
  case (Update n' v)
  then show ?thesis
    by (cases "flags_get n' s") (simp_all add: flags_update_missing flags_update_existing)
next
  case (HandleUpdate a v)
  then show ?thesis by simp
qed

lemma description_exec:
  assumes "flags_get n s = Some h" and "registry_inv s"
  shows "flags_get n (exec ops s) = Some h"
    and "m_name (heap (exec ops s) ! h) = n"
    and "m_description (heap (exec ops s) ! h) = m_description (heap s ! h)"
proof -
  from assms have "h < length (heap s)" and "m_name (heap s ! h) = n"
    by (simp_all add: registry_inv_get)
  with heap_exec [of h s ops]
  show "m_name (heap (exec ops s) ! h) = n"
    and "m_description (heap (exec ops s) ! h) = m_description (heap s ! h)"
    by simp_all
  from assms(1) show "flags_get n (exec ops s) = Some h"
    by (rule flags_get_exec)
qed

lemma first_define_description:
  assumes "registry_inv s" and "flags_get n s = None" and "flags_get n (exec ops s) = Some h"
  shows "map_option snd (first_define n ops) = Some (m_description (heap (exec ops s) ! h))"
  using assms
proof (induction ops arbitrary: s)
  case Nil
  then show ?case by simp
next
  case (Cons op ops)
  show ?case
  proof (cases "\<exists>v d. op = Define n v d")
    case True
    then obtain v d where op: "op = Define n v d" by blast
    let ?s1 = "step op s"
    from define_read [OF Cons.prems(2), of v d] op
    have g: "flags_get n ?s1 = Some (length (heap s))"
      and c: "m_description (heap ?s1 ! length (heap s)) = d"
      by simp_all
    have inv: "registry_inv ?s1"
      using Cons.prems(1) by (rule registry_inv_step)
    from description_exec [OF g inv, of ops] Cons.prems(3) c
    have "m_description (heap (exec (op # ops) s) ! h) = d"
      by simp
    with op show ?thesis by simp
  next
    case False
    then have other: "\<And>v d. op \<noteq> Define n v d" by blast
    then have "flags_get n (step op s) = None"
      using Cons.prems(2) by (simp add: flags_get_step_other)
    moreover have "registry_inv (step op s)"
      using Cons.prems(1) by (rule registry_inv_step)
    ultimately have "map_option snd (first_define n ops) =
        Some (m_description (heap (exec ops (step op s)) ! h))"
      using Cons.prems(3) by (intro Cons.IH) simp_all
    moreover from other have "first_define n (op # ops) = first_define n ops"
      by (cases op) auto
    ultimately show ?thesis by simp
  qed
qed

lemma static_cast_int_in_range:
  fixes v :: "64 word"
  assumes "- (2 ^ 31) \<le> sint v" and "sint v < 2 ^ 31"
  shows "sint (static_cast_int v) = sint v"
proof -
  have "sint (ucast v :: 32 word) = signed_take_bit 31 (uint v)"
    by (simp add: signed_ucast_eq)
  also have "\<dots> = signed_take_bit 31 (signed_take_bit 63 (uint v))"
    by (simp add: signed_take_bit_signed_take_bit)
  also have "\<dots> = signed_take_bit 31 (sint v)"
    by (simp add: sint_uint)
  also have "\<dots> = sint v"
    using assms by (simp add: signed_take_bit_int_eq_self)
  finally show ?thesis by (simp add: static_cast_int_def)
qed


lemma cpp_int_range: "- (2 ^ 31) \<le> sint (i :: cpp_int) \<and> sint i < 2 ^ 31"
  using sint_greater_eq [of i] sint_less [of i] by simp

subsection \<open>Evaluation of the example history\<close>

lemma Value_get_simps [simp]:
  "Value_get_bool (Value v) = (case v of VBool b \<Rightarrow> Some b | _ \<Rightarrow> None)"
  "Value_get_int (Value v) = (case v of VInt i \<Rightarrow> Some i | _ \<Rightarrow> None)"
  "Value_get_double (Value v) = (case v of VDouble x \<Rightarrow> Some x | _ \<Rightarrow> None)"
  "Value_get_string (Value v) = (case v of VString t \<Rightarrow> Some t | _ \<Rightarrow> None)"
  by (cases v; simp)+

lemmas get_value_defs = flags_get_value_bool_def flags_get_value_int_def
  flags_get_value_double_def flags_get_value_string_def Flag_value_def

lemmas eval_defs = init_def flags_defs Let_def get_value_defs flags_is_enabled_def
  Value_operator_bool_def Flag_update_def

lemma basic_usage_state:
  "exec basic_usage init =
     \<lparr>heap =
        [\<lparr>m_name = ''dark_mode'', m_value = VBool True, m_description = ''Enable dark mode UI''\<rparr>,
         \<lparr>m_name = ''max_connections'', m_value = VInt 100,
          m_description = ''Maximum number of connections''\<rparr>,
         \<lparr>m_name = ''api_endpoint'', m_value = VString ''https://api.example.com'',
          m_description = ''API endpoint URL''\<rparr>,
         \<lparr>m_name = ''timeout_seconds'', m_value = VDouble 0x403E800000000000,
          m_description = ''Connection timeout in seconds''\<rparr>],
      m_flags =
        [(''dark_mode'', 0), (''max_connections'', 1), (''api_endpoint'', 2), (''timeout_seconds'', 3)]\<rparr>"
  by (simp add: basic_usage_def eval_defs)


section \<open>\<^verbatim>\<open>define\<close>\<close>

text \<open>
  C1, as the specification states it: for every name \<open>n\<close>, after \<^verbatim>\<open>define(n, v1, d1)\<close>
  and then \<^verbatim>\<open>define(n, v2, d2)\<close> the flag stores \<open>v1\<close> and has the description \<open>d1\<close>.
  For a name that is already defined the first of the two calls is discarded as well:
  after the example history, \<^verbatim>\<open>define("dark_mode", false, "other")\<close> and then
  \<^verbatim>\<open>define("dark_mode", 2, "b")\<close> leave the value \<^verbatim>\<open>true\<close> and the description of the
  example.
\<close>

theorem define_twice_counterexample:
  "m_value
     (heap (snd (flags_define ''dark_mode'' (VInt 2) ''b''
              (snd (flags_define ''dark_mode'' (VBool False) ''other'' (exec basic_usage init))))) !
      fst (flags_define ''dark_mode'' (VBool False) ''other'' (exec basic_usage init))) \<noteq> VBool False \<and>
   m_description
     (heap (snd (flags_define ''dark_mode'' (VInt 2) ''b''
              (snd (flags_define ''dark_mode'' (VBool False) ''other'' (exec basic_usage init))))) !
      fst (flags_define ''dark_mode'' (VBool False) ''other'' (exec basic_usage init))) \<noteq> ''other''"
proof -
  have "flags_get ''dark_mode'' (exec basic_usage init) = Some 0"
    by (simp add: basic_usage_state flags_get_map_of)
  then have "flags_define ''dark_mode'' v d (exec basic_usage init) = (0, exec basic_usage init)" for v d
    by (rule flags_define_existing)
  then show ?thesis
    by (simp add: basic_usage_state)
qed

text \<open>
  C1, amended. In a reachable state, \<^verbatim>\<open>define(n, v1, d1)\<close> and then \<^verbatim>\<open>define(n, v2, d2)\<close>
  return the same pointer, and the second call changes nothing: its arguments are
  discarded. If \<open>n\<close> is not defined before the first call, the flag stores \<open>v1\<close> and has
  the description \<open>d1\<close> after both calls; if \<open>n\<close> is defined before, the first call
  returns the existing flag and changes nothing either. The names in the registry are
  pairwise different, before and after: there is one flag for a name.
\<close>

theorem define_idempotent:
  assumes "s = exec ops init"
    and "flags_define n v1 d1 s = (h1, s1)"
    and "flags_define n v2 d2 s1 = (h2, s2)"
  shows "h2 = h1 \<and> s2 = s1 \<and>
         flags_get n s2 = Some h1 \<and>
         m_name (heap s2 ! h1) = n \<and>
         (\<not> flags_exists n s \<longrightarrow>
            m_value (heap s2 ! h1) = v1 \<and> m_description (heap s2 ! h1) = d1) \<and>
         (flags_exists n s \<longrightarrow> flags_get n s = Some h1 \<and> s1 = s) \<and>
         distinct (map fst (m_flags s)) \<and>
         distinct (map fst (m_flags s2))"
proof -
  have g1: "flags_get n s1 = Some h1"
    using flags_get_after_define [of n v1 d1 s] assms(2) by simp
  with assms(3) have same: "h2 = h1" "s2 = s1"
    by (simp_all add: flags_define_existing)
  have inv: "registry_inv s"
    using assms(1) by (simp add: registry_inv_reachable)
  then have inv1: "registry_inv s1"
    using registry_inv_define [of s n v1 d1] assms(2) by simp
  from registry_inv_get [OF inv1 g1] have name: "m_name (heap s1 ! h1) = n"
    by simp
  have fresh: "m_value (heap s1 ! h1) = v1 \<and> m_description (heap s1 ! h1) = d1"
    if "\<not> flags_exists n s"
  proof -
    from that have "flags_get n s = None"
      by (simp add: flags_exists_get)
    from define_read [OF this, of v1 d1] assms(2) show ?thesis
      by simp
  qed
  have known: "flags_get n s = Some h1 \<and> s1 = s" if "flags_exists n s"
  proof -
    from that obtain h where h: "flags_get n s = Some h"
      by (auto simp: flags_exists_get)
    from flags_define_existing [OF h, of v1 d1] assms(2) h show ?thesis
      by simp
  qed
  from inv inv1 have "distinct (map fst (m_flags s))" "distinct (map fst (m_flags s1))"
    by (simp_all add: registry_inv_def)
  with same g1 name fresh known show ?thesis
    by simp
qed

theorem define_idempotent_witness:
  "flags_define ''retries'' (VInt 3) ''Retries'' (exec basic_usage init) =
     (4, exec (basic_usage @ [Define ''retries'' (VInt 3) ''Retries'']) init) \<and>
   flags_define ''retries'' (VInt 5) ''Again'' (exec (basic_usage @ [Define ''retries'' (VInt 3) ''Retries'']) init) =
     (4, exec (basic_usage @ [Define ''retries'' (VInt 3) ''Retries'']) init) \<and>
   \<not> flags_exists ''retries'' (exec basic_usage init) \<and>
   m_value (heap (exec (basic_usage @ [Define ''retries'' (VInt 3) ''Retries'']) init) ! 4) = VInt 3 \<and>
   m_description (heap (exec (basic_usage @ [Define ''retries'' (VInt 3) ''Retries'']) init) ! 4) =
     ''Retries''"
proof -
  let ?s1 = "exec (basic_usage @ [Define ''retries'' (VInt 3) ''Retries'']) init"
  have fresh: "flags_get ''retries'' (exec basic_usage init) = None"
    by (simp add: basic_usage_state flags_get_map_of)
  have a: "flags_define ''retries'' (VInt 3) ''Retries'' (exec basic_usage init) = (4, ?s1)"
    using define_read(1) [OF fresh, of "VInt 3" "''Retries''"]
    by (simp add: exec_append prod_eq_iff basic_usage_state)
  then have "flags_get ''retries'' ?s1 = Some 4"
    using flags_get_after_define [of "''retries''" "VInt 3" "''Retries''" "exec basic_usage init"]
    by simp
  then have b: "flags_define ''retries'' (VInt 5) ''Again'' ?s1 = (4, ?s1)"
    by (rule flags_define_existing)
  from define_idempotent [OF refl a b] a b fresh show ?thesis
    by (simp add: flags_exists_get)
qed


section \<open>Reading back what was stored\<close>

text \<open>
  C2. Round trip. In a reachable state, for each of the four kinds (\<^verbatim>\<open>bool\<close>, \<^verbatim>\<open>int\<close>,
  \<^verbatim>\<open>double\<close>, \<^verbatim>\<open>std::string\<close>), every value of that kind and every name \<open>n\<close>:
  after \<^verbatim>\<open>define(n, v)\<close> on a name that is not yet defined, and after \<^verbatim>\<open>update(n, v)\<close>
  on a name that is defined, \<^verbatim>\<open>get_value\<close> at that kind returns exactly \<open>v\<close>.
\<close>

theorem round_trip:
  assumes "s = exec ops init"
  shows "(\<not> flags_exists n s \<longrightarrow>
            flags_get_value_bool n (snd (flags_define n (VBool b) d s)) = Some b \<and>
            flags_get_value_int n (snd (flags_define n (VInt i) d s)) = Some i \<and>
            flags_get_value_double n (snd (flags_define n (VDouble x) d s)) = Some x \<and>
            flags_get_value_string n (snd (flags_define n (VString t) d s)) = Some t) \<and>
         (flags_exists n s \<longrightarrow>
            flags_get_value_bool n (snd (flags_update n (VBool b) s)) = Some b \<and>
            flags_get_value_int n (snd (flags_update n (VInt i) s)) = Some i \<and>
            flags_get_value_double n (snd (flags_update n (VDouble x) s)) = Some x \<and>
            flags_get_value_string n (snd (flags_update n (VString t) s)) = Some t)"
proof (cases "flags_get n s")
  case None
  have "flags_get_value_bool n (snd (flags_define n (VBool b) d s)) = Some b"
    using define_read [OF None, of "VBool b" d] by (simp add: get_value_defs)
  moreover have "flags_get_value_int n (snd (flags_define n (VInt i) d s)) = Some i"
    using define_read [OF None, of "VInt i" d] by (simp add: get_value_defs)
  moreover have "flags_get_value_double n (snd (flags_define n (VDouble x) d s)) = Some x"
    using define_read [OF None, of "VDouble x" d] by (simp add: get_value_defs)
  moreover have "flags_get_value_string n (snd (flags_define n (VString t) d s)) = Some t"
    using define_read [OF None, of "VString t" d] by (simp add: get_value_defs)
  ultimately show ?thesis
    using None by (simp add: flags_exists_get)
next
  case (Some h)
  have inv: "registry_inv s"
    using assms by (simp add: registry_inv_reachable)
  have "flags_get_value_bool n (snd (flags_update n (VBool b) s)) = Some b"
    using update_read [OF inv Some, of "VBool b"] by (simp add: get_value_defs Flag_update_def)
  moreover have "flags_get_value_int n (snd (flags_update n (VInt i) s)) = Some i"
    using update_read [OF inv Some, of "VInt i"] by (simp add: get_value_defs Flag_update_def)
  moreover have "flags_get_value_double n (snd (flags_update n (VDouble x) s)) = Some x"
    using update_read [OF inv Some, of "VDouble x"] by (simp add: get_value_defs Flag_update_def)
  moreover have "flags_get_value_string n (snd (flags_update n (VString t) s)) = Some t"
    using update_read [OF inv Some, of "VString t"] by (simp add: get_value_defs Flag_update_def)
  ultimately show ?thesis
    using Some by (simp add: flags_exists_get)
qed

theorem round_trip_witness:
  "\<not> flags_exists ''retries'' (exec basic_usage init) \<and>
   flags_get_value_int ''retries'' (snd (flags_define ''retries'' (VInt 3) ''Retries'' (exec basic_usage init))) = Some 3 \<and>
   flags_exists ''api_endpoint'' (exec basic_usage init) \<and>
   flags_get_value_string ''api_endpoint''
     (snd (flags_update ''api_endpoint'' (VString ''https://api2.example.com'') (exec basic_usage init))) =
     Some ''https://api2.example.com''"
  using round_trip [of "exec basic_usage init" basic_usage "''retries''" True "''Retries''" 3 0 "''''"]
    round_trip [of "exec basic_usage init" basic_usage "''api_endpoint''" True "''''" 3 0
      "''https://api2.example.com''"]
  by (simp add: basic_usage_state flags_get_map_of flags_exists_get)


section \<open>\<^verbatim>\<open>get_value<T>\<close>\<close>

text \<open>
  C3. \<^verbatim>\<open>get_value<T>(n)\<close> returns a value exactly when the flag \<open>n\<close> exists and the
  alternative it stores now is \<^verbatim>\<open>T\<close>, and that value is the stored one; it is empty
  otherwise. A flag that stores one kind gives empty for each of the three other kinds
  (an \<^verbatim>\<open>int\<close> flag read as \<^verbatim>\<open>double\<close> is empty, not converted), and an undefined name
  gives empty for all four. This holds in every state.
\<close>

theorem get_value_kind_exact:
  "(flags_get_value_bool n s = Some b \<longleftrightarrow>
      (\<exists>h. flags_get n s = Some h \<and> m_value (heap s ! h) = VBool b)) \<and>
   (flags_get_value_int n s = Some i \<longleftrightarrow>
      (\<exists>h. flags_get n s = Some h \<and> m_value (heap s ! h) = VInt i)) \<and>
   (flags_get_value_double n s = Some x \<longleftrightarrow>
      (\<exists>h. flags_get n s = Some h \<and> m_value (heap s ! h) = VDouble x)) \<and>
   (flags_get_value_string n s = Some t \<longleftrightarrow>
      (\<exists>h. flags_get n s = Some h \<and> m_value (heap s ! h) = VString t)) \<and>
   (flags_get_value_bool n s \<noteq> None \<longleftrightarrow>
      (\<exists>h. flags_get n s = Some h \<and> holds_alternative_bool (m_value (heap s ! h)))) \<and>
   (flags_get_value_int n s \<noteq> None \<longleftrightarrow>
      (\<exists>h. flags_get n s = Some h \<and> holds_alternative_int (m_value (heap s ! h)))) \<and>
   (flags_get_value_double n s \<noteq> None \<longleftrightarrow>
      (\<exists>h. flags_get n s = Some h \<and> holds_alternative_double (m_value (heap s ! h)))) \<and>
   (flags_get_value_string n s \<noteq> None \<longleftrightarrow>
      (\<exists>h. flags_get n s = Some h \<and> holds_alternative_string (m_value (heap s ! h)))) \<and>
   (\<forall>h. flags_get n s = Some h \<and> holds_alternative_bool (m_value (heap s ! h)) \<longrightarrow>
      flags_get_value_int n s = None \<and> flags_get_value_double n s = None \<and>
      flags_get_value_string n s = None) \<and>
   (\<forall>h. flags_get n s = Some h \<and> holds_alternative_int (m_value (heap s ! h)) \<longrightarrow>
      flags_get_value_bool n s = None \<and> flags_get_value_double n s = None \<and>
      flags_get_value_string n s = None) \<and>
   (\<forall>h. flags_get n s = Some h \<and> holds_alternative_double (m_value (heap s ! h)) \<longrightarrow>
      flags_get_value_bool n s = None \<and> flags_get_value_int n s = None \<and>
      flags_get_value_string n s = None) \<and>
   (\<forall>h. flags_get n s = Some h \<and> holds_alternative_string (m_value (heap s ! h)) \<longrightarrow>
      flags_get_value_bool n s = None \<and> flags_get_value_int n s = None \<and>
      flags_get_value_double n s = None) \<and>
   (flags_get n s = None \<longrightarrow>
      flags_get_value_bool n s = None \<and> flags_get_value_int n s = None \<and>
      flags_get_value_double n s = None \<and> flags_get_value_string n s = None)"
proof (cases "flags_get n s")
  case None
  then show ?thesis by (simp add: get_value_defs)
next
  case (Some h)
  then show ?thesis by (cases "m_value (heap s ! h)") (simp_all add: get_value_defs)
qed

theorem get_value_kind_exact_witness:
  "flags_get ''max_connections'' (exec basic_usage init) = Some 1 \<and>
   m_value (heap (exec basic_usage init) ! 1) = VInt 100 \<and>
   holds_alternative_int (m_value (heap (exec basic_usage init) ! 1)) \<and>
   flags_get_value_int ''max_connections'' (exec basic_usage init) = Some 100 \<and>
   flags_get_value_bool ''max_connections'' (exec basic_usage init) = None \<and>
   flags_get_value_double ''max_connections'' (exec basic_usage init) = None \<and>
   flags_get_value_string ''max_connections'' (exec basic_usage init) = None \<and>
   flags_get ''unknown'' (exec basic_usage init) = None \<and>
   flags_get_value_int ''unknown'' (exec basic_usage init) = None"
  using get_value_kind_exact [of "''max_connections''" "exec basic_usage init" True 100 0 "''''"]
    get_value_kind_exact [of "''unknown''" "exec basic_usage init" True 100 0 "''''"]
  by (simp add: basic_usage_state flags_get_map_of)


section \<open>\<^verbatim>\<open>update\<close>\<close>

text \<open>
  C4. In a reachable state, \<^verbatim>\<open>update(n, v)\<close> on a name that is not in the registry
  returns false and leaves the state as it was, so no flag named \<open>n\<close> exists afterwards;
  on a name that is in the registry it returns true, and the flag of that name then
  stores \<open>v\<close>. The result is true if and only if \<open>n\<close> was defined.
\<close>

theorem update_found_iff:
  assumes "s = exec ops init"
  shows "(\<not> flags_exists n s \<longrightarrow>
            flags_update n v s = (False, s) \<and>
            \<not> flags_exists n (snd (flags_update n v s))) \<and>
         (flags_exists n s \<longrightarrow>
            fst (flags_update n v s) = True \<and>
            (\<exists>h. flags_get n s = Some h \<and>
                 flags_get n (snd (flags_update n v s)) = Some h \<and>
                 m_value (heap (snd (flags_update n v s)) ! h) = v) \<and>
            m_flags (snd (flags_update n v s)) = m_flags s) \<and>
         fst (flags_update n v s) = flags_exists n s"
proof (cases "flags_get n s")
  case None
  then show ?thesis
    by (simp add: flags_exists_get flags_update_missing)
next
  case (Some h)
  have inv: "registry_inv s"
    using assms by (simp add: registry_inv_reachable)
  from update_read [OF inv Some, of v] Some show ?thesis
    by (simp add: flags_exists_get Flag_update_def)
qed

theorem update_found_iff_witness:
  "\<not> flags_exists ''non_existent'' (exec basic_usage init) \<and>
   flags_update ''non_existent'' (VBool True) (exec basic_usage init) = (False, exec basic_usage init) \<and>
   flags_exists ''max_connections'' (exec basic_usage init) \<and>
   fst (flags_update ''max_connections'' (VInt 200) (exec basic_usage init)) = True \<and>
   flags_get ''max_connections'' (exec basic_usage init) = Some 1 \<and>
   m_value (heap (snd (flags_update ''max_connections'' (VInt 200) (exec basic_usage init))) ! 1) = VInt 200"
  using update_found_iff [of "exec basic_usage init" basic_usage "''non_existent''" "VBool True"]
    update_found_iff [of "exec basic_usage init" basic_usage "''max_connections''" "VInt 200"]
  by (simp add: basic_usage_state flags_get_map_of flags_exists_get)


section \<open>\<^verbatim>\<open>is_enabled\<close>\<close>

text \<open>
  C5. \<^verbatim>\<open>is_enabled(n)\<close> is true if and only if a flag named \<open>n\<close> exists, its stored
  value is a boolean, and that boolean is true. It is false for a missing flag, for a
  flag of another kind and for a stored false: the caller gets the same \<open>False\<close> in the
  three cases. This holds in every state.
\<close>

theorem is_enabled_iff:
  "(flags_is_enabled n s \<longleftrightarrow> (\<exists>h. flags_get n s = Some h \<and> m_value (heap s ! h) = VBool True)) \<and>
   (flags_get n s = None \<longrightarrow> flags_is_enabled n s = False) \<and>
   (\<forall>h. flags_get n s = Some h \<and> \<not> holds_alternative_bool (m_value (heap s ! h)) \<longrightarrow>
        flags_is_enabled n s = False) \<and>
   (\<forall>h. flags_get n s = Some h \<and> m_value (heap s ! h) = VBool False \<longrightarrow>
        flags_is_enabled n s = False)"
  by (cases "flags_get n s")
    (auto simp: flags_is_enabled_def Value_operator_bool_def Flag_value_def
      split: FlagValue.splits option.splits)

theorem is_enabled_iff_witness:
  "flags_get ''dark_mode'' (exec basic_usage init) = Some 0 \<and>
   m_value (heap (exec basic_usage init) ! 0) = VBool True \<and>
   flags_is_enabled ''dark_mode'' (exec basic_usage init) \<and>
   flags_get ''max_connections'' (exec basic_usage init) = Some 1 \<and>
   \<not> holds_alternative_bool (m_value (heap (exec basic_usage init) ! 1)) \<and>
   flags_is_enabled ''max_connections'' (exec basic_usage init) = False \<and>
   flags_get ''dark_mode'' (exec (basic_usage @ [Update ''dark_mode'' (VBool False)]) init) = Some 0 \<and>
   m_value (heap (exec (basic_usage @ [Update ''dark_mode'' (VBool False)]) init) ! 0) = VBool False \<and>
   flags_is_enabled ''dark_mode'' (exec (basic_usage @ [Update ''dark_mode'' (VBool False)]) init) = False \<and>
   flags_get ''unknown'' (exec basic_usage init) = None \<and>
   flags_is_enabled ''unknown'' (exec basic_usage init) = False"
  using is_enabled_iff [of "''dark_mode''" "exec basic_usage init"]
    is_enabled_iff [of "''max_connections''" "exec basic_usage init"]
    is_enabled_iff [of "''dark_mode''" "exec (basic_usage @ [Update ''dark_mode'' (VBool False)]) init"]
    is_enabled_iff [of "''unknown''" "exec basic_usage init"]
  by (simp add: exec_append basic_usage_state flags_get_map_of flags_update_existing Flag_update_def)


section \<open>Updates across kinds\<close>

text \<open>
  C6. Kind drift is permitted. In a reachable state, for a flag \<open>n\<close> that stores a value
  of any kind and a new value \<open>w\<close> of any of the four kinds, the same or another,
  \<^verbatim>\<open>update(n, w)\<close> succeeds and the flag then stores \<open>w\<close> whole: its alternative is the
  one of \<open>w\<close>, and \<^verbatim>\<open>get_value\<close> at the kind of \<open>w\<close> returns the content of \<open>w\<close>.
\<close>

theorem kind_drift:
  assumes "s = exec ops init" and "flags_get n s = Some h"
    and "s' = snd (flags_update n w s)"
  shows "fst (flags_update n w s) = True \<and>
         flags_get n s' = Some h \<and>
         m_value (heap s' ! h) = w \<and>
         (case w of
            VBool b \<Rightarrow>
              holds_alternative_bool (m_value (heap s' ! h)) \<and> flags_get_value_bool n s' = Some b
          | VInt i \<Rightarrow>
              holds_alternative_int (m_value (heap s' ! h)) \<and> flags_get_value_int n s' = Some i
          | VDouble x \<Rightarrow>
              holds_alternative_double (m_value (heap s' ! h)) \<and> flags_get_value_double n s' = Some x
          | VString t \<Rightarrow>
              holds_alternative_string (m_value (heap s' ! h)) \<and> flags_get_value_string n s' = Some t)"
proof -
  have inv: "registry_inv s"
    using assms(1) by (simp add: registry_inv_reachable)
  have stored: "m_value (heap s' ! h) = w" and found: "flags_get n s' = Some h"
    using update_read [OF inv assms(2), of w] assms(3) by (simp_all add: Flag_update_def)
  from stored found update_read(1) [OF inv assms(2), of w] show ?thesis
    by (cases w) (simp_all add: get_value_defs)
qed

theorem kind_drift_witness:
  "flags_get ''max_connections'' (exec basic_usage init) = Some 1 \<and>
   holds_alternative_int (m_value (heap (exec basic_usage init) ! 1)) \<and>
   fst (flags_update ''max_connections'' (VString ''many'') (exec basic_usage init)) = True \<and>
   m_value (heap (snd (flags_update ''max_connections'' (VString ''many'') (exec basic_usage init))) ! 1) =
     VString ''many'' \<and>
   flags_get_value_string ''max_connections''
     (snd (flags_update ''max_connections'' (VString ''many'') (exec basic_usage init))) = Some ''many''"
  using kind_drift [of "exec basic_usage init" basic_usage "''max_connections''" 1
      "snd (flags_update ''max_connections'' (VString ''many'') (exec basic_usage init))" "VString ''many''"]
  by (simp add: basic_usage_state flags_get_map_of)


section \<open>The integer alternative\<close>

text \<open>
  C7, as the specification states it: the integer alternative is safe for 64 bits, so
  every signed 64-bit value is read back as it was stored. The alternative is \<^verbatim>\<open>int\<close>:
  the 64-bit value \<open>2\<^sup>3\<^sup>1\<close> reaches a flag only through the conversion to \<^verbatim>\<open>int\<close>, and
  is read back as \<open>- 2\<^sup>3\<^sup>1\<close>.
\<close>

theorem int_64_bit_counterexample:
  "map_option sint
     (flags_get_value_int ''big''
        (snd (flags_define ''big'' (VInt (static_cast_int 2147483648)) ''Big'' init))) =
     Some (- 2147483648) \<and>
   map_option sint
     (flags_get_value_int ''big''
        (snd (flags_define ''big'' (VInt (static_cast_int 2147483648)) ''Big'' init))) \<noteq>
     Some (sint (2147483648 :: 64 word))"
  by (simp add: static_cast_int_def eval_defs)

text \<open>
  C7, amended. The integer alternative is the 32-bit \<^verbatim>\<open>int\<close>. In a reachable state,
  every \<^verbatim>\<open>int\<close> value given to \<^verbatim>\<open>define\<close> on an undefined name or to \<^verbatim>\<open>update\<close> on a
  defined name is read back by \<^verbatim>\<open>get_value<int>\<close> exactly; and so is every signed 64-bit
  value \<open>v\<close> with \<open>- 2\<^sup>3\<^sup>1 \<le> v < 2\<^sup>3\<^sup>1\<close>, converted to \<^verbatim>\<open>int\<close>. A 64-bit value \<open>v\<close>
  outside that range cannot be stored as the integer value: its conversion to \<^verbatim>\<open>int\<close>
  is another number, no \<^verbatim>\<open>int\<close> value \<open>i\<close> equals it, and whatever \<^verbatim>\<open>int\<close> is stored by
  \<^verbatim>\<open>define\<close> or \<^verbatim>\<open>update\<close>, \<^verbatim>\<open>get_value<int>\<close> does not return \<open>v\<close>.
\<close>

theorem int_round_trip:
  assumes "s = exec ops init"
  shows "(\<not> flags_exists n s \<longrightarrow>
            flags_get_value_int n (snd (flags_define n (VInt i) d s)) = Some i) \<and>
         (flags_exists n s \<longrightarrow>
            flags_get_value_int n (snd (flags_update n (VInt i) s)) = Some i) \<and>
         (- (2 ^ 31) \<le> sint v \<and> sint v < 2 ^ 31 \<longrightarrow>
            (\<not> flags_exists n s \<longrightarrow>
               map_option sint
                 (flags_get_value_int n (snd (flags_define n (VInt (static_cast_int v)) d s))) =
               Some (sint v)) \<and>
            (flags_exists n s \<longrightarrow>
               map_option sint
                 (flags_get_value_int n (snd (flags_update n (VInt (static_cast_int v)) s))) =
               Some (sint v))) \<and>
         (\<not> (- (2 ^ 31) \<le> sint v \<and> sint v < 2 ^ 31) \<longrightarrow>
            sint (static_cast_int v) \<noteq> sint v \<and>
            sint i \<noteq> sint v \<and>
            (\<not> flags_exists n s \<longrightarrow>
               map_option sint (flags_get_value_int n (snd (flags_define n (VInt i) d s))) \<noteq>
               Some (sint v)) \<and>
            (flags_exists n s \<longrightarrow>
               map_option sint (flags_get_value_int n (snd (flags_update n (VInt i) s))) \<noteq>
               Some (sint v)))"
proof -
  have inv: "registry_inv s"
    using assms by (simp add: registry_inv_reachable)
  have defined: "flags_get_value_int n (snd (flags_define n (VInt j) d s)) = Some j"
    if "\<not> flags_exists n s" for j
  proof -
    from that have "flags_get n s = None"
      by (simp add: flags_exists_get)
    from define_read [OF this, of "VInt j" d] show ?thesis
      by (simp add: get_value_defs)
  qed
  have updated: "flags_get_value_int n (snd (flags_update n (VInt j) s)) = Some j"
    if "flags_exists n s" for j
  proof -
    from that obtain h where "flags_get n s = Some h"
      by (auto simp: flags_exists_get)
    from update_read [OF inv this, of "VInt j"] show ?thesis
      by (simp add: get_value_defs Flag_update_def)
  qed
  have outside: "sint j \<noteq> sint v"
    if "\<not> (- (2 ^ 31) \<le> sint v \<and> sint v < 2 ^ 31)" for j :: cpp_int
    using that cpp_int_range [of j] by auto
  have inside: "- (2 ^ 31) \<le> sint v \<and> sint v < 2 ^ 31 \<longrightarrow>
      (\<not> flags_exists n s \<longrightarrow>
         map_option sint
           (flags_get_value_int n (snd (flags_define n (VInt (static_cast_int v)) d s))) =
         Some (sint v)) \<and>
      (flags_exists n s \<longrightarrow>
         map_option sint
           (flags_get_value_int n (snd (flags_update n (VInt (static_cast_int v)) s))) =
         Some (sint v))"
    using defined [of "static_cast_int v"] updated [of "static_cast_int v"]
      static_cast_int_in_range [of v]
    by simp
  have not_stored: "\<not> (- (2 ^ 31) \<le> sint v \<and> sint v < 2 ^ 31) \<longrightarrow>
      sint (static_cast_int v) \<noteq> sint v \<and>
      sint i \<noteq> sint v \<and>
      (\<not> flags_exists n s \<longrightarrow>
         map_option sint (flags_get_value_int n (snd (flags_define n (VInt i) d s))) \<noteq>
         Some (sint v)) \<and>
      (flags_exists n s \<longrightarrow>
         map_option sint (flags_get_value_int n (snd (flags_update n (VInt i) s))) \<noteq>
         Some (sint v))"
    using defined [of i] updated [of i] outside [of i] outside [of "static_cast_int v"]
    by simp
  from defined [of i] updated [of i] inside not_stored show ?thesis
    by blast
qed

theorem int_round_trip_witness:
  "\<not> flags_exists ''low'' (exec basic_usage init) \<and>
   - (2 ^ 31) \<le> sint (- 2147483648 :: 64 word) \<and> sint (- 2147483648 :: 64 word) < 2 ^ 31 \<and>
   map_option sint
     (flags_get_value_int ''low''
        (snd (flags_define ''low'' (VInt (static_cast_int (- 2147483648))) ''Low'' (exec basic_usage init)))) =
     Some (- 2147483648) \<and>
   flags_exists ''max_connections'' (exec basic_usage init) \<and>
   flags_get_value_int ''max_connections''
     (snd (flags_update ''max_connections'' (VInt 2147483647) (exec basic_usage init))) =
     Some 2147483647 \<and>
   \<not> (- (2 ^ 31) \<le> sint (4294967296 :: 64 word) \<and> sint (4294967296 :: 64 word) < 2 ^ 31) \<and>
   sint (static_cast_int 4294967296) \<noteq> sint (4294967296 :: 64 word) \<and>
   map_option sint
     (flags_get_value_int ''max_connections''
        (snd (flags_update ''max_connections'' (VInt 2147483647) (exec basic_usage init)))) \<noteq>
     Some (sint (4294967296 :: 64 word))"
proof -
  have a: "sint (- 2147483648 :: 64 word) = - 2147483648"
    "sint (4294967296 :: 64 word) = 4294967296"
    by simp_all
  have b: "\<not> flags_exists ''low'' (exec basic_usage init)"
    "flags_exists ''max_connections'' (exec basic_usage init)"
    by (simp_all add: basic_usage_state flags_exists_get flags_get_map_of)
  from int_round_trip [OF refl, of "''low''" basic_usage 0 "''Low''" "- 2147483648"]
    int_round_trip [OF refl, of "''max_connections''" basic_usage 2147483647 "''''" 4294967296] a b
  show ?thesis by simp
qed


section \<open>\<^verbatim>\<open>get_all\<close>\<close>

text \<open>
  C8. \<^verbatim>\<open>get_all\<close> returns a complete snapshot. In every reachable state the returned
  pointers are pairwise different, the names of the flags they point to are pairwise
  different and are exactly the defined names, each returned pointer is the one that
  \<^verbatim>\<open>get\<close> returns for that name, and the length of the sequence is the number of
  defined flags. Nothing is said about the order.
\<close>

theorem get_all_complete:
  "distinct (flags_get_all (exec ops init)) \<and>
   distinct (map (\<lambda>h. m_name (heap (exec ops init) ! h)) (flags_get_all (exec ops init))) \<and>
   set (map (\<lambda>h. m_name (heap (exec ops init) ! h)) (flags_get_all (exec ops init))) =
     {n. flags_exists n (exec ops init)} \<and>
   length (flags_get_all (exec ops init)) = card {n. flags_exists n (exec ops init)} \<and>
   list_all (\<lambda>h. flags_get (m_name (heap (exec ops init) ! h)) (exec ops init) = Some h)
     (flags_get_all (exec ops init))"
proof -
  let ?s = "exec ops init"
  let ?names = "map (\<lambda>h. m_name (heap ?s ! h)) (flags_get_all ?s)"
  have inv: "registry_inv ?s"
    by (rule registry_inv_reachable)
  then have keys: "distinct (map fst (m_flags ?s))"
    by (simp add: registry_inv_def)
  have names: "?names = map fst (m_flags ?s)"
    using inv by (rule get_all_names)
  have d_names: "distinct ?names"
    using names keys by simp
  then have d_ptrs: "distinct (flags_get_all ?s)"
    by (simp add: distinct_map)
  have dom: "set ?names = {n. flags_exists n ?s}"
    using names by (simp add: exists_set)
  have "card (set ?names) = length ?names"
    using d_names by (rule distinct_card)
  then have len: "length (flags_get_all ?s) = card {n. flags_exists n ?s}"
    unfolding dom by simp
  have "flags_get (m_name (heap ?s ! h)) ?s = Some h" if "h \<in> set (flags_get_all ?s)" for h
  proof -
    from that obtain n where e: "(n, h) \<in> set (m_flags ?s)"
      by (auto simp: flags_get_all_def FlagRegistry_get_all_def get_all_loop_eq)
    with keys have g: "flags_get n ?s = Some h"
      by (simp add: flags_get_map_of)
    with inv have "m_name (heap ?s ! h) = n"
      by (simp add: registry_inv_get)
    with g show ?thesis by simp
  qed
  then have "list_all (\<lambda>h. flags_get (m_name (heap ?s ! h)) ?s = Some h) (flags_get_all ?s)"
    by (simp add: list_all_iff)
  with d_ptrs d_names dom len show ?thesis
    by blast
qed

theorem get_all_complete_witness:
  "flags_get_all (exec basic_usage init) = [0, 1, 2, 3] \<and>
   map (\<lambda>h. m_name (heap (exec basic_usage init) ! h)) (flags_get_all (exec basic_usage init)) =
     [''dark_mode'', ''max_connections'', ''api_endpoint'', ''timeout_seconds''] \<and>
   card {n. flags_exists n (exec basic_usage init)} = 4"
  using get_all_complete [of basic_usage]
  by (simp add: basic_usage_state flags_get_all_def FlagRegistry_get_all_def)


section \<open>Pointers to one flag\<close>

text \<open>
  C9. Handle identity is stable. Take a reachable state, a call \<^verbatim>\<open>define(n, ...)\<close> in it
  (the first one for \<open>n\<close>, or a later one) with the pointer \<open>h\<close> it returns, and any
  history of further calls. Then \<^verbatim>\<open>get(n)\<close> returns \<open>h\<close>, a further \<^verbatim>\<open>define(n, ...)\<close>
  returns \<open>h\<close> and changes nothing, and after \<^verbatim>\<open>update(n, w)\<close> through the registry
  \<^verbatim>\<open>value()\<close> through \<open>h\<close> gives \<open>w\<close>.
\<close>

theorem handle_identity_stable:
  assumes "s = exec ops init"
    and "flags_define n v d s = (h, s1)"
    and "s2 = exec later s1"
  shows "flags_get n s1 = Some h \<and>
         flags_get n s2 = Some h \<and>
         flags_define n v' d' s2 = (h, s2) \<and>
         fst (flags_update n w s2) = True \<and>
         Flag_value (heap (snd (flags_update n w s2)) ! h) = Value w"
proof -
  have g1: "flags_get n s1 = Some h"
    using flags_get_after_define [of n v d s] assms(2) by simp
  then have g2: "flags_get n s2 = Some h"
    unfolding assms(3) by (rule flags_get_exec)
  have "s2 = exec (ops @ Define n v d # later) init"
    using assms by (simp add: exec_append)
  then have inv: "registry_inv s2"
    by (simp only: registry_inv_reachable)
  from g2 have "flags_define n v' d' s2 = (h, s2)"
    by (rule flags_define_existing)
  moreover from update_read [OF inv g2, of w]
  have "fst (flags_update n w s2) = True \<and>
        Flag_value (heap (snd (flags_update n w s2)) ! h) = Value w"
    by (simp add: Flag_value_def Flag_update_def)
  ultimately show ?thesis
    using g1 g2 by simp
qed

theorem handle_identity_stable_witness:
  "flags_define ''max_connections'' (VInt 100) ''Maximum number of connections''
     (exec (take 1 basic_usage) init) = (1, exec (take 2 basic_usage) init) \<and>
   exec basic_usage init = exec (drop 2 basic_usage) (exec (take 2 basic_usage) init) \<and>
   flags_get ''max_connections'' (exec basic_usage init) = Some 1 \<and>
   flags_define ''max_connections'' (VInt 7) ''again'' (exec basic_usage init) =
     (1, exec basic_usage init) \<and>
   Flag_value (heap (snd (flags_update ''max_connections'' (VInt 200) (exec basic_usage init))) ! 1) =
     Value (VInt 200)"
proof -
  have a: "flags_define ''max_connections'' (VInt 100) ''Maximum number of connections''
      (exec (take 1 basic_usage) init) = (1, exec (take 2 basic_usage) init)"
    by (simp add: basic_usage_def eval_defs)
  have b: "exec basic_usage init = exec (drop 2 basic_usage) (exec (take 2 basic_usage) init)"
    by (simp only: exec_append [symmetric] append_take_drop_id)
  from handle_identity_stable [OF refl a b, of "VInt 7" "''again''" "VInt 200"] a b
  show ?thesis by simp
qed


section \<open>Name and description\<close>

text \<open>
  C10. Key and name agree, and name and description never change. In the state after
  any history \<open>ops\<close>, if \<^verbatim>\<open>get(n)\<close> returns a pointer \<open>h\<close>, then \<^verbatim>\<open>h->name()\<close> is \<open>n\<close>
  and \<^verbatim>\<open>h->description()\<close> is the description given to the first \<^verbatim>\<open>define\<close> of \<open>n\<close>
  in \<open>ops\<close>; after any further history (definitions, updates through the registry,
  updates through pointers) \<^verbatim>\<open>get(n)\<close> still returns \<open>h\<close>, with the same name and the
  same description.
\<close>

theorem name_description_invariant:
  assumes "s = exec ops init" and "flags_get n s = Some h"
  shows "m_name (heap s ! h) = n \<and>
         map_option snd (first_define n ops) = Some (m_description (heap s ! h)) \<and>
         flags_get n (exec later s) = Some h \<and>
         m_name (heap (exec later s) ! h) = n \<and>
         m_description (heap (exec later s) ! h) = m_description (heap s ! h)"
proof -
  have inv: "registry_inv s"
    using assms(1) by (simp add: registry_inv_reachable)
  have "flags_get n init = None"
    by (simp add: flags_get_map_of init_def)
  with registry_inv_init
  have "map_option snd (first_define n ops) = Some (m_description (heap (exec ops init) ! h))"
    using assms by (intro first_define_description) simp_all
  with registry_inv_get [OF inv assms(2)] description_exec [OF assms(2) inv, of later] assms(1)
  show ?thesis by simp
qed

theorem name_description_invariant_witness:
  "flags_get ''dark_mode'' (exec (basic_usage @ [Define ''dark_mode'' (VBool False) ''other'']) init) = Some 0 \<and>
   first_define ''dark_mode'' (basic_usage @ [Define ''dark_mode'' (VBool False) ''other'']) =
     Some (VBool True, ''Enable dark mode UI'') \<and>
   m_name (heap (exec (basic_usage @ [Define ''dark_mode'' (VBool False) ''other'']) init) ! 0) =
     ''dark_mode'' \<and>
   m_description (heap (exec (basic_usage @ [Define ''dark_mode'' (VBool False) ''other'']) init) ! 0) =
     ''Enable dark mode UI'' \<and>
   m_description
     (heap (exec [Update ''dark_mode'' (VInt 5), HandleUpdate 0 (VString ''x'')]
        (exec (basic_usage @ [Define ''dark_mode'' (VBool False) ''other'']) init)) ! 0) =
     ''Enable dark mode UI''"
proof -
  have g: "flags_get ''dark_mode''
      (exec (basic_usage @ [Define ''dark_mode'' (VBool False) ''other'']) init) = Some 0"
    by (simp add: exec_append basic_usage_state flags_get_map_of flags_define_existing)
  have f: "first_define ''dark_mode'' (basic_usage @ [Define ''dark_mode'' (VBool False) ''other'']) =
      Some (VBool True, ''Enable dark mode UI'')"
    by (simp add: basic_usage_def)
  from name_description_invariant [OF refl g,
      of "[Update ''dark_mode'' (VInt 5), HandleUpdate 0 (VString ''x'')]"] g f
  show ?thesis by simp
qed

end
